theory Spec2Isabelle
  imports Main "HOL-Library.Word"
begin

section \<open>Data model\<close>

text \<open>
  The program works on Pillow images. The model fixes the mode to RGBA, the mode
  \<^verbatim>\<open>swap_colors\<close> creates its output in: a colour is the 4-tuple of 8-bit channels that
  \<^verbatim>\<open>getdata()\<close> and pixel access yield for such an image.
\<close>

type_synonym color = "8 word \<times> 8 word \<times> 8 word \<times> 8 word"

text \<open>The exceptions the modelled code can raise; an exception is the \<open>Inl\<close> of a sum.\<close>

datatype error = KeyError color | ZeroDivisionError | ValueError | TypeError

text \<open>
  An image is its \<^verbatim>\<open>size\<close> (width, height) and its pixel access \<^verbatim>\<open>im.load()[x, y]\<close>.
  Only coordinates with \<open>x < width\<close> and \<open>y < height\<close> belong to the image.
\<close>

record image =
  width :: nat
  height :: nat
  pixel :: "nat \<times> nat \<Rightarrow> color"

text \<open>\<^verbatim>\<open>Image.new("RGBA", size, color)\<close>: every pixel has the given colour.\<close>

definition Image_new :: "nat \<times> nat \<Rightarrow> color \<Rightarrow> image" where
  "Image_new sz c = \<lparr>width = fst sz, height = snd sz, pixel = (\<lambda>_. c)\<rparr>"

text \<open>
  \<^verbatim>\<open>image.getdata()\<close>: the pixels as one flat sequence, row after row from the top,
  each row from left to right.
\<close>

definition getdata :: "image \<Rightarrow> color list" where
  "getdata im = concat (map (\<lambda>y. map (\<lambda>x. pixel im (x, y)) [0..<width im]) [0..<height im])"

text \<open>\<^verbatim>\<open>data[x, y] = c\<close> on the pixel access object of an image, for a coordinate in range.\<close>

definition putpixel :: "image \<Rightarrow> nat \<times> nat \<Rightarrow> color \<Rightarrow> image" where
  "putpixel im xy c = im\<lparr>pixel := (pixel im)(xy := c)\<rparr>"

text \<open>
  \<^verbatim>\<open>ImageDraw.Draw(im).rectangle((x0, y0, x1, y1), fill=c, outline=None)\<close>: Pillow fills
  the box with both corner coordinates included, clipped to the image; with the drawing
  mode equal to the image mode the fill replaces the pixel, alpha included.
\<close>

definition draw_rectangle :: "image \<Rightarrow> nat \<times> nat \<times> nat \<times> nat \<Rightarrow> color \<Rightarrow> image" where
  "draw_rectangle im xy fill =
     (case xy of (x0, y0, x1, y1) \<Rightarrow>
        im\<lparr>pixel := (\<lambda>(x, y).
              if x0 \<le> x \<and> x \<le> x1 \<and> y0 \<le> y \<and> y \<le> y1 \<and> x < width im \<and> y < height im
              then fill else pixel im (x, y))\<rparr>)"

section \<open>The program\<close>

subsection \<open>get_im_data\<close>

text \<open>
  The loop of \<^verbatim>\<open>get_im_data\<close>: a colour is appended to \<^verbatim>\<open>colors_present\<close> when it is
  not in the list yet.
\<close>

fun get_im_data_loop :: "'a list \<Rightarrow> 'a list \<Rightarrow> 'a list" where
  "get_im_data_loop colors_present [] = colors_present"
| "get_im_data_loop colors_present (c # cs) =
     get_im_data_loop (if c \<notin> set colors_present then colors_present @ [c] else colors_present) cs"

definition get_im_data :: "image \<Rightarrow> color list" where
  "get_im_data im = get_im_data_loop [] (getdata im)"

subsection \<open>get_color_map\<close>

text \<open>
  The loop of \<^verbatim>\<open>get_color_map\<close> over \<^verbatim>\<open>range(0, len(old_colors))\<close>. The dictionary is a
  map. The test \<^verbatim>\<open>i > len(new_colors) - 1\<close> is on Python integers, so the subtraction is
  written on \<open>int\<close>: with an empty \<^verbatim>\<open>new_colors\<close> it compares with \<open>-1\<close>. Both list reads
  are in range: \<open>i < length old_colors\<close> by the range, and \<open>i < length new_colors\<close> in the
  else branch.
\<close>

fun get_color_map_loop :: "'a list \<Rightarrow> 'a list \<Rightarrow> nat list \<Rightarrow> ('a \<rightharpoonup> 'a) \<Rightarrow> ('a \<rightharpoonup> 'a)" where
  "get_color_map_loop old_colors new_colors [] color_map = color_map"
| "get_color_map_loop old_colors new_colors (i # rest) color_map =
     get_color_map_loop old_colors new_colors rest
       (if int i > int (length new_colors) - 1
        then color_map(old_colors ! i \<mapsto> old_colors ! i)
        else color_map(old_colors ! i \<mapsto> new_colors ! i))"

definition get_color_map :: "'a list \<Rightarrow> 'a list \<Rightarrow> ('a \<rightharpoonup> 'a)" where
  "get_color_map old_colors new_colors =
     get_color_map_loop old_colors new_colors [0..<length old_colors] Map.empty"

subsection \<open>make_palette\<close>

text \<open>
  The drawing loop of \<^verbatim>\<open>make_palette\<close>: one rectangle per colour, from
  \<^verbatim>\<open>col_width * right_shift\<close> to \<^verbatim>\<open>col_width * (right_shift + 1)\<close>, over the rows 0 to
  \<^verbatim>\<open>palette_size[1]\<close> = 200.
\<close>

fun make_palette_loop :: "nat \<Rightarrow> color list \<Rightarrow> nat \<Rightarrow> image \<Rightarrow> image" where
  "make_palette_loop col_width [] right_shift palette_image = palette_image"
| "make_palette_loop col_width (c # cs) right_shift palette_image =
     make_palette_loop col_width cs (right_shift + 1)
       (draw_rectangle palette_image
          (col_width * right_shift, 0, col_width * (right_shift + 1), 200) c)"

text \<open>
  \<^verbatim>\<open>make_palette(base, color_list=None, disp_text=None)\<close>, for an RGBA base and fill
  colours that are pixel values. \<^verbatim>\<open>Image.new(base.mode, palette_size)\<close> is a 300 by 200
  image of the zero pixel. \<^verbatim>\<open>floor(palette_size[0] / num_cols)\<close> raises ZeroDivisionError
  for \<^verbatim>\<open>num_cols = 0\<close> and is \<open>300 div num_cols\<close> otherwise (the float quotient of 300
  by a list length has the same floor). The caption \<^verbatim>\<open>disp_text\<close> is left out:
  \<^verbatim>\<open>swap_colors\<close> passes none.
\<close>

definition make_palette :: "image option \<Rightarrow> color list option \<Rightarrow> error + image" where
  "make_palette base color_list =
     (case (case base of
              None \<Rightarrow> (case color_list of
                         None \<Rightarrow> Inl TypeError
                       | Some cl \<Rightarrow> Inr (Image_new (length cl, 1) (255, 255, 255, 0)))
            | Some b \<Rightarrow> Inr b) of
        Inl e \<Rightarrow> Inl e
      | Inr base' \<Rightarrow>
          (let color_list' = (case color_list of None \<Rightarrow> get_im_data base' | Some cl \<Rightarrow> cl);
               palette_image = Image_new (300, 200) (0, 0, 0, 0);
               num_cols = length color_list'
           in if num_cols = 0 then Inl ZeroDivisionError
              else Inr (make_palette_loop (300 div num_cols) color_list' 0 palette_image)))"

subsection \<open>swap_colors\<close>

text \<open>
  The inner loop of \<^verbatim>\<open>swap_colors\<close> over \<^verbatim>\<open>y_coord\<close>, for a fixed \<^verbatim>\<open>x_coord\<close>. The
  dictionary read \<^verbatim>\<open>color_map[...]\<close> raises KeyError for a missing key.
\<close>

fun swap_column :: "(color \<rightharpoonup> color) \<Rightarrow> image \<Rightarrow> nat \<Rightarrow> nat list \<Rightarrow> image \<Rightarrow> error + image" where
  "swap_column color_map old_data x_coord [] new_data = Inr new_data"
| "swap_column color_map old_data x_coord (y_coord # ys) new_data =
     (case color_map (pixel old_data (x_coord, y_coord)) of
        None \<Rightarrow> Inl (KeyError (pixel old_data (x_coord, y_coord)))
      | Some c \<Rightarrow> swap_column color_map old_data x_coord ys (putpixel new_data (x_coord, y_coord) c))"

text \<open>The outer loop over \<^verbatim>\<open>x_coord\<close>.\<close>

fun swap_pixels :: "(color \<rightharpoonup> color) \<Rightarrow> image \<Rightarrow> nat list \<Rightarrow> nat list \<Rightarrow> image \<Rightarrow> error + image" where
  "swap_pixels color_map old_data [] ys new_data = Inr new_data"
| "swap_pixels color_map old_data (x_coord # xs) ys new_data =
     (case swap_column color_map old_data x_coord ys new_data of
        Inl e \<Rightarrow> Inl e
      | Inr new_data' \<Rightarrow> swap_pixels color_map old_data xs ys new_data')"

text \<open>
  The transform step of \<^verbatim>\<open>swap_colors\<close> (its lines 120 and 125 to 132) for a given
  dictionary: a new image of the size of the original, fully transparent, then the two
  loops over \<^verbatim>\<open>range(new_image.size[0])\<close> and \<^verbatim>\<open>range(new_image.size[1])\<close>.
\<close>

definition transform_image :: "image \<Rightarrow> (color \<rightharpoonup> color) \<Rightarrow> error + image" where
  "transform_image original color_map =
     (let new_image = Image_new (width original, height original) (255, 255, 255, 0)
      in swap_pixels color_map original [0..<width new_image] [0..<height new_image] new_image)"

text \<open>
  \<^verbatim>\<open>swap_colors(original, palette)\<close>: the old colours are read back from the palette
  image that \<^verbatim>\<open>make_palette\<close> draws for the original.
\<close>

definition swap_colors :: "image \<Rightarrow> image \<Rightarrow> error + image" where
  "swap_colors original palette =
     (case make_palette (Some original) None of
        Inl e \<Rightarrow> Inl e
      | Inr old_pal \<Rightarrow>
          (let old_colors = get_im_data old_pal;
               new_colors = get_im_data palette;
               color_map = get_color_map old_colors new_colors
           in transform_image original color_map))"

subsection \<open>load_palette_file\<close>











section \<open>Notions of the specification\<close>

text \<open>
  First-occurrence order, as the specification words it: a colour is listed where it
  first occurs, and its later occurrences are dropped.
\<close>

fun first_occurrences :: "'a list \<Rightarrow> 'a list" where
  "first_occurrences [] = []"
| "first_occurrences (x # xs) = x # first_occurrences (removeAll x xs)"

text \<open>
  The position at which a colour first occurs in a traversal (the length of the
  traversal when it does not occur).
\<close>

definition first_index :: "'a \<Rightarrow> 'a list \<Rightarrow> nat" where
  "first_index c xs = length (takeWhile (\<lambda>d. d \<noteq> c) xs)"


section \<open>Example inputs\<close>

definition red :: color where "red = (255, 0, 0, 255)"
definition green :: color where "green = (0, 255, 0, 255)"
definition blue :: color where "blue = (0, 0, 255, 255)"
definition white :: color where "white = (255, 255, 255, 255)"

text \<open>The 2 by 1 image of the specification's scenario: a red pixel, then a green one.\<close>

definition example_image :: image where
  "example_image = \<lparr>width = 2, height = 1, pixel = (\<lambda>p. if fst p = 0 then red else green)\<rparr>"

text \<open>The output the scenario expects for the one-colour palette \<open>[blue]\<close>.\<close>

definition example_output :: image where
  "example_output =
     putpixel (putpixel (Image_new (2, 1) (255, 255, 255, 0)) (0, 0) blue) (1, 0) green"


definition empty_image :: image where
  "empty_image = Image_new (0, 0) (0, 0, 0, 0)"

text \<open>A 301 by 1 image whose pixels all differ: pixel \<open>x\<close> has red \<open>x mod 256\<close>, green \<open>x div 256\<close>.\<close>

definition many_colors_image :: image where
  "many_colors_image =
     \<lparr>width = 301, height = 1,
      pixel = (\<lambda>p. (word_of_nat (fst p mod 256), word_of_nat (fst p div 256), 0, 255))\<rparr>"

definition blue_palette :: image where
  "blue_palette = Image_new (1, 1) (0, 0, 255, 255)"

section \<open>Properties of get_im_data\<close>

lemma get_im_data_loop_set: "set (get_im_data_loop acc cs) = set acc \<union> set cs"
  by (induction cs arbitrary: acc) auto

lemma get_im_data_loop_distinct: "distinct acc \<Longrightarrow> distinct (get_im_data_loop acc cs)"
  by (induction cs arbitrary: acc) auto

lemma get_im_data_loop_first_occurrences:
  "get_im_data_loop acc cs = acc @ first_occurrences (filter (\<lambda>c. c \<notin> set acc) cs)"
proof (induction cs arbitrary: acc)
  case Nil
  then show ?case by simp
next
  case (Cons c cs)
  have eq: "removeAll c (filter (\<lambda>c. c \<notin> set acc) cs) = filter (\<lambda>d. d \<notin> set (acc @ [c])) cs"
    by (induction cs) auto
  show ?case
  proof (cases "c \<in> set acc")
    case True
    then show ?thesis using Cons.IH [of acc] by simp
  next
    case False
    then show ?thesis using Cons.IH [of "acc @ [c]"] eq by simp
  qed
qed

lemma length_get_im_data_loop: "length (get_im_data_loop acc cs) \<le> length acc + length cs"
proof (induction cs arbitrary: acc)
  case Nil
  then show ?case by simp
next
  case (Cons c cs)
  show ?case using Cons.IH [of "acc @ [c]"] Cons.IH [of acc] by auto
qed

text \<open>The traversal of \<open>getdata\<close>, for any way \<open>f\<close> of reading the pixel of row \<open>y\<close>, column \<open>x\<close>.\<close>

lemma length_rows: "length (concat (map (\<lambda>y. map (f y) [0..<w]) [0..<h])) = w * h"
  by (induction h) auto

lemma nth_rows:
  "x < w \<Longrightarrow> y < h \<Longrightarrow> concat (map (\<lambda>y. map (f y) [0..<w]) [0..<h]) ! (y * w + x) = f y x"
proof (induction h)
  case 0
  then show ?case by simp
next
  case (Suc h)
  show ?case
  proof (cases "y < h")
    case True
    have "y * w + x < Suc y * w" using Suc.prems(1) by simp
    also have "\<dots> \<le> h * w" using True by (intro mult_le_mono1) simp
    finally have "y * w + x < w * h" by (simp add: mult.commute)
    then show ?thesis using Suc True by (simp add: nth_append length_rows)
  next
    case False
    then have "y = h" using Suc.prems by simp
    then show ?thesis using Suc.prems(1) by (simp add: nth_append length_rows mult.commute)
  qed
qed

lemma in_set_rows:
  "c \<in> set (concat (map (\<lambda>y. map (f y) [0..<w]) [0..<h])) \<longleftrightarrow> (\<exists>x y. x < w \<and> y < h \<and> f y x = c)"
  by (induction h) (auto simp: less_Suc_eq)

lemma length_getdata: "length (getdata im) = width im * height im"
  by (simp add: getdata_def length_rows)

lemma getdata_nth:
  "x < width im \<Longrightarrow> y < height im \<Longrightarrow> getdata im ! (y * width im + x) = pixel im (x, y)"
  unfolding getdata_def by (rule nth_rows)

lemma in_set_getdata:
  "c \<in> set (getdata im) \<longleftrightarrow> (\<exists>x y. x < width im \<and> y < height im \<and> pixel im (x, y) = c)"
  unfolding getdata_def by (rule in_set_rows)

lemma get_im_data_set: "set (get_im_data im) = set (getdata im)"
  by (simp add: get_im_data_def get_im_data_loop_set)

lemma get_im_data_distinct: "distinct (get_im_data im)"
  by (simp add: get_im_data_def get_im_data_loop_distinct)

lemma get_im_data_first_occurrences: "get_im_data im = first_occurrences (getdata im)"
  by (simp add: get_im_data_def get_im_data_loop_first_occurrences)

lemma first_occurrences_distinct: "distinct xs \<Longrightarrow> first_occurrences xs = xs"
  by (induction xs) auto

lemma get_im_data_loop_append:
  "get_im_data_loop acc (xs @ ys) = get_im_data_loop (get_im_data_loop acc xs) ys"
  by (induction xs arbitrary: acc) auto

lemma get_im_data_loop_prefix: "\<exists>extra. get_im_data_loop acc cs = acc @ extra"
  by (simp add: get_im_data_loop_first_occurrences)

lemma first_index_removeAll:
  "a \<noteq> x \<Longrightarrow> b \<noteq> x \<Longrightarrow>
   first_index a (removeAll x xs) < first_index b (removeAll x xs) \<Longrightarrow>
   first_index a xs < first_index b xs"
proof (induction xs)
  case Nil
  then show ?case by simp
next
  case (Cons y ys)
  show ?case
  proof (cases "y = x")
    case True
    with Cons show ?thesis by (simp add: first_index_def)
  next
    case False
    show ?thesis
    proof (cases "y = a")
      case True
      with Cons.prems False have "y \<noteq> b" by (auto simp: first_index_def)
      with True show ?thesis by (simp add: first_index_def)
    next
      case ya: False
      show ?thesis
      proof (cases "y = b")
        case True
        with Cons.prems False show ?thesis by (simp add: first_index_def)
      next
        case yb: False
        from Cons.prems False ya yb
        have "first_index a (removeAll x ys) < first_index b (removeAll x ys)"
          by (simp add: first_index_def)
        from Cons.IH [OF Cons.prems(1,2) this] ya yb show ?thesis
          by (simp add: first_index_def)
      qed
    qed
  qed
qed

lemma set_first_occurrences: "set (first_occurrences xs) = set xs"
  by (induction xs rule: first_occurrences.induct) auto

lemma first_occurrences_sorted:
  "sorted_wrt (\<lambda>a b. first_index a xs < first_index b xs) (first_occurrences xs)"
proof (induction xs rule: first_occurrences.induct)
  case 1
  then show ?case by simp
next
  case (2 x xs)
  let ?r = "first_occurrences (removeAll x xs)"
  have notx: "b \<noteq> x" if "b \<in> set ?r" for b
    using that by (simp add: set_first_occurrences)
  have head: "\<forall>b \<in> set ?r. first_index x (x # xs) < first_index b (x # xs)"
    using notx by (auto simp: first_index_def)
  have "sorted_wrt (\<lambda>a b. first_index a (x # xs) < first_index b (x # xs)) ?r"
  proof (rule sorted_wrt_mono_rel [OF _ "2.IH"])
    fix a b
    assume "a \<in> set ?r" "b \<in> set ?r"
      and "first_index a (removeAll x xs) < first_index b (removeAll x xs)"
    then have "a \<noteq> x" "b \<noteq> x"
      and "first_index a (removeAll x xs) < first_index b (removeAll x xs)"
      using notx by simp_all
    then have "first_index a xs < first_index b xs" "a \<noteq> x" "b \<noteq> x"
      using first_index_removeAll [of a x b xs] by simp_all
    then show "first_index a (x # xs) < first_index b (x # xs)"
      by (simp add: first_index_def)
  qed
  with head show ?case by simp
qed

lemma get_im_data_order:
  "\<forall>i j. i < j \<and> j < length (get_im_data im) \<longrightarrow>
     first_index (get_im_data im ! i) (getdata im) < first_index (get_im_data im ! j) (getdata im)"
  using first_occurrences_sorted [of "getdata im"]
  unfolding get_im_data_first_occurrences sorted_wrt_iff_nth_less by blast

lemma upt_0_2: "[0..<2] = [0, 1]"
  by (simp add: numeral_2_eq_2)

lemmas color_defs = red_def green_def blue_def white_def

lemma example_image_getdata: "getdata example_image = [red, green]"
  by (simp add: getdata_def example_image_def upt_0_2)

lemma example_image_get_im_data: "get_im_data example_image = [red, green]"
  by (simp add: get_im_data_def example_image_getdata color_defs)

text \<open>
  Claim C3. For every image, the list returned by \<open>get_im_data\<close> has no repeated colour,
  is at most as long as the number of pixels, and holds exactly the colours of the
  traversal \<open>getdata\<close> in the order of their first occurrences: it is the
  first-occurrence list of the traversal, and of two entries the earlier one first
  occurs earlier in the traversal. The traversal has one entry per pixel and reads pixel
  \<open>(x, y)\<close> at position \<open>y * width + x\<close>, that is row by row from the top and from left
  to right in each row. An image without pixels yields the empty list.
\<close>

theorem get_im_data_catalog:
  "distinct (get_im_data im) \<and>
   length (get_im_data im) \<le> width im * height im \<and>
   set (get_im_data im) = set (getdata im) \<and>
   get_im_data im = first_occurrences (getdata im) \<and>
   (\<forall>i j. i < j \<and> j < length (get_im_data im) \<longrightarrow>
      first_index (get_im_data im ! i) (getdata im) < first_index (get_im_data im ! j) (getdata im)) \<and>
   length (getdata im) = width im * height im \<and>
   (\<forall>x y. x < width im \<and> y < height im \<longrightarrow> getdata im ! (y * width im + x) = pixel im (x, y)) \<and>
   (width im * height im = 0 \<longrightarrow> get_im_data im = [])"
proof -
  have bound: "length (get_im_data im) \<le> width im * height im"
    using length_get_im_data_loop [of "[]" "getdata im"]
    by (simp add: get_im_data_def length_getdata)
  have nth: "\<forall>x y. x < width im \<and> y < height im \<longrightarrow> getdata im ! (y * width im + x) = pixel im (x, y)"
    by (simp add: getdata_nth)
  have empty: "width im * height im = 0 \<longrightarrow> get_im_data im = []"
  proof
    assume "width im * height im = 0"
    then have "length (getdata im) = 0" by (simp add: length_getdata)
    then show "get_im_data im = []" by (simp add: get_im_data_def)
  qed
  show ?thesis
    by (intro conjI get_im_data_distinct bound get_im_data_set get_im_data_first_occurrences
        get_im_data_order length_getdata nth empty)
qed

theorem get_im_data_catalog_witness:
  "get_im_data example_image = [red, green] \<and>
   first_occurrences (getdata example_image) = [red, green] \<and>
   width empty_image * height empty_image = 0 \<and> get_im_data empty_image = []"
proof -
  from get_im_data_catalog [of example_image]
  have "get_im_data example_image = first_occurrences (getdata example_image)" by blast
  then have a: "first_occurrences (getdata example_image) = [red, green]"
    unfolding example_image_get_im_data by (rule sym)
  have b: "width empty_image * height empty_image = 0"
    by (simp add: empty_image_def Image_new_def)
  from get_im_data_catalog [of empty_image]
  have "width empty_image * height empty_image = 0 \<longrightarrow> get_im_data empty_image = []" by blast
  with b have c: "get_im_data empty_image = []" by (rule rev_mp)
  show ?thesis by (intro conjI example_image_get_im_data a b c)
qed

section \<open>Properties of get_color_map\<close>

lemma get_color_map_loop_append:
  "get_color_map_loop old new (is @ js) m = get_color_map_loop old new js (get_color_map_loop old new is m)"
  by (induction "is" arbitrary: m) auto

lemma get_color_map_loop_other:
  "\<forall>i \<in> set is. old ! i \<noteq> c \<Longrightarrow> get_color_map_loop old new is m c = m c"
  by (induction "is" arbitrary: m) auto

lemma get_color_map_loop_dom:
  "dom (get_color_map_loop old new is m) = dom m \<union> (\<lambda>i. old ! i) ` set is"
  by (induction "is" arbitrary: m) auto

lemma get_color_map_dom: "dom (get_color_map old new) = set old"
  by (simp add: get_color_map_def get_color_map_loop_dom nth_image)

text \<open>The entry of a colour is the pairing of the last index that holds it.\<close>

lemma get_color_map_last_occurrence:
  assumes "j < length old" and "\<forall>k. j < k \<and> k < length old \<longrightarrow> old ! k \<noteq> old ! j"
  shows "get_color_map old new (old ! j) = Some (if j < length new then new ! j else old ! j)"
proof -
  have "[0..<j + (length old - j)] = [0..<j] @ [j..<j + (length old - j)]"
    by (rule upt_add_eq_append) simp
  then have "[0..<length old] = [0..<j] @ [j..<length old]"
    using assms(1) by simp
  also have "[j..<length old] = [j] @ [Suc j..<length old]"
    using assms(1) by (simp add: upt_conv_Cons)
  finally have split: "[0..<length old] = [0..<j] @ [j] @ [Suc j..<length old]" .
  have later: "\<forall>i \<in> set [Suc j..<length old]. old ! i \<noteq> old ! j"
    using assms(2) by auto
  show ?thesis
    unfolding get_color_map_def split get_color_map_loop_append
    by (simp add: get_color_map_loop_other [OF later])
qed


lemma get_color_map_self:
  assumes "distinct cs" and "c \<in> set cs"
  shows "get_color_map cs cs c = Some c"
proof -
  from assms(2) obtain j where j: "j < length cs" "cs ! j = c" by (auto simp: in_set_conv_nth)
  have "\<forall>k. j < k \<and> k < length cs \<longrightarrow> cs ! k \<noteq> cs ! j"
    using assms(1) j(1) by (auto simp: nth_eq_iff_index_eq)
  from get_color_map_last_occurrence [OF j(1) this, of cs] j show ?thesis by simp
qed

text \<open>
  Claim C2. For every pair of colour lists, the keys of the dictionary returned by
  \<open>get_color_map\<close> are exactly the colours of the source list.
\<close>

theorem get_color_map_keys:
  "dom (get_color_map source_colors dest_colors) = set source_colors"
  by (rule get_color_map_dom)

theorem get_color_map_keys_witness:
  "dom (get_color_map [red, green] [blue]) = {red, green}"
  using get_color_map_keys [of "[red, green]" "[blue]"] by simp




text \<open>
  Claim C10, as stated, fails when the colour occurs a third time: in \<open>[red, red, red]\<close>
  red stands at the indices 0 and 1, yet with the destination list
  \<open>[green, blue, white]\<close> it is not given the destination colour of index 1.
\<close>

theorem get_color_map_later_overwrites_counterexample:
  "(0::nat) < 1 \<and> 1 < length [red, red, red] \<and> [red, red, red] ! 0 = [red, red, red] ! 1 \<and>
   get_color_map [red, red, red] [green, blue, white] ([red, red, red] ! 1)
     \<noteq> Some ([green, blue, white] ! 1)"
  by (simp add: get_color_map_def color_defs)

text \<open>
  Claim C10, amended. If the source list holds the same colour at two indices \<open>i < j\<close>,
  the dictionary gives that colour the value of the pairing at the largest index \<open>m\<close>
  that holds it, and \<open>m\<close> is at least \<open>j\<close>: a later pairing overwrites every earlier
  one. The value at \<open>m\<close> is what the loop body assigns there: the source colour itself
  when \<open>m > len(new_colors) - 1\<close>, the destination colour of index \<open>m\<close> otherwise.
\<close>

theorem get_color_map_later_overwrites:
  assumes "i < j" and "j < length old_colors" and "old_colors ! i = old_colors ! j"
  shows "\<exists>m. j \<le> m \<and> m < length old_colors \<and> old_colors ! m = old_colors ! i \<and>
           (\<forall>k. m < k \<and> k < length old_colors \<longrightarrow> old_colors ! k \<noteq> old_colors ! i) \<and>
           get_color_map old_colors new_colors (old_colors ! i) =
             Some (if int m > int (length new_colors) - 1 then old_colors ! m else new_colors ! m)"
proof -
  let ?S = "{k. k < length old_colors \<and> old_colors ! k = old_colors ! j}"
  have fin: "finite ?S" by simp
  have ne: "j \<in> ?S" using assms(2) by simp
  define m where "m = Max ?S"
  have m_in: "m \<in> ?S" unfolding m_def using fin ne by (metis Max_in empty_iff)
  have m_ge: "j \<le> m" unfolding m_def using fin ne by (rule Max_ge)
  have m_last: "\<forall>k. m < k \<and> k < length old_colors \<longrightarrow> old_colors ! k \<noteq> old_colors ! m"
  proof (intro allI impI notI)
    fix k assume k: "m < k \<and> k < length old_colors" and eq: "old_colors ! k = old_colors ! m"
    then have "k \<in> ?S" using m_in by simp
    then have "k \<le> m" unfolding m_def by (rule Max_ge [OF fin])
    with k show False by simp
  qed
  have m_len: "m < length old_colors" and m_eq: "old_colors ! m = old_colors ! j"
    using m_in by simp_all
  have "get_color_map old_colors new_colors (old_colors ! m) =
          Some (if m < length new_colors then new_colors ! m else old_colors ! m)"
    by (rule get_color_map_last_occurrence [OF m_len m_last])
  moreover have "(int m > int (length new_colors) - 1) = (\<not> m < length new_colors)" by linarith
  ultimately show ?thesis
    using m_ge m_len m_eq m_last assms(3) by (intro exI [of _ m]) auto
qed

theorem get_color_map_later_overwrites_witness:
  "(0::nat) < 1 \<and> 1 < length [red, red, red] \<and> [red, red, red] ! 0 = [red, red, red] ! 1 \<and>
   (\<exists>m. 1 \<le> m \<and> m < length [red, red, red] \<and> [red, red, red] ! m = [red, red, red] ! 0 \<and>
      (\<forall>k. m < k \<and> k < length [red, red, red] \<longrightarrow> [red, red, red] ! k \<noteq> [red, red, red] ! 0) \<and>
      get_color_map [red, red, red] [green, blue, white] ([red, red, red] ! 0) =
        Some (if int m > int (length [green, blue, white]) - 1
              then [red, red, red] ! m else [green, blue, white] ! m)) \<and>
   get_color_map [red, red, red] [green, blue, white] red = Some white"
proof -
  have a: "(0::nat) < 1" "1 < length [red, red, red]" "[red, red, red] ! 0 = [red, red, red] ! 1"
    by simp_all
  have b: "get_color_map [red, red, red] [green, blue, white] red = Some white"
    by (simp add: get_color_map_def color_defs)
  show ?thesis
    by (intro conjI a b get_color_map_later_overwrites [OF a])
qed

section \<open>Properties of the transform step\<close>

lemma swap_column_Inr:
  "\<forall>y \<in> set ys. cm (pixel old (x, y)) \<noteq> None \<Longrightarrow>
   \<exists>out. swap_column cm old x ys new = Inr out \<and> width out = width new \<and> height out = height new \<and>
     (\<forall>p. pixel out p = (if fst p = x \<and> snd p \<in> set ys then the (cm (pixel old p)) else pixel new p))"
proof (induction ys arbitrary: new)
  case Nil
  then show ?case by simp
next
  case (Cons y ys)
  from Cons.prems obtain c where c: "cm (pixel old (x, y)) = Some c" by fastforce
  let ?new = "putpixel new (x, y) c"
  from Cons.prems have "\<forall>y \<in> set ys. cm (pixel old (x, y)) \<noteq> None" by simp
  from Cons.IH [OF this, of ?new] obtain out where
    out: "swap_column cm old x ys ?new = Inr out" "width out = width ?new" "height out = height ?new"
      "\<forall>p. pixel out p = (if fst p = x \<and> snd p \<in> set ys then the (cm (pixel old p)) else pixel ?new p)"
    by blast
  have "pixel out p = (if fst p = x \<and> snd p \<in> set (y # ys) then the (cm (pixel old p)) else pixel new p)" for p
  proof (cases "p = (x, y)")
    case True
    then show ?thesis using out(4) [rule_format, of p] c by (simp add: putpixel_def)
  next
    case False
    then have "\<not> (fst p = x \<and> snd p = y)" by (metis prod.collapse)
    then show ?thesis using out(4) [rule_format, of p] False by (auto simp: putpixel_def)
  qed
  then show ?case using out c by (simp add: putpixel_def)
qed

lemma swap_column_Inl:
  "\<exists>y \<in> set ys. cm (pixel old (x, y)) = None \<Longrightarrow>
   \<exists>y \<in> set ys. swap_column cm old x ys new = Inl (KeyError (pixel old (x, y))) \<and> cm (pixel old (x, y)) = None"
proof (induction ys arbitrary: new)
  case Nil
  then show ?case by simp
next
  case (Cons y ys)
  show ?case
  proof (cases "cm (pixel old (x, y))")
    case None
    then show ?thesis by simp
  next
    case (Some c)
    with Cons.prems have "\<exists>y \<in> set ys. cm (pixel old (x, y)) = None" by auto
    from Cons.IH [OF this, of "putpixel new (x, y) c"] show ?thesis using Some by auto
  qed
qed

lemma swap_pixels_Inr:
  "\<forall>x \<in> set xs. \<forall>y \<in> set ys. cm (pixel old (x, y)) \<noteq> None \<Longrightarrow>
   \<exists>out. swap_pixels cm old xs ys new = Inr out \<and> width out = width new \<and> height out = height new \<and>
     (\<forall>p. pixel out p = (if fst p \<in> set xs \<and> snd p \<in> set ys then the (cm (pixel old p)) else pixel new p))"
proof (induction xs arbitrary: new)
  case Nil
  then show ?case by simp
next
  case (Cons x xs)
  from Cons.prems have "\<forall>y \<in> set ys. cm (pixel old (x, y)) \<noteq> None" by simp
  from swap_column_Inr [OF this, of new] obtain mid where
    mid: "swap_column cm old x ys new = Inr mid" "width mid = width new" "height mid = height new"
      "\<forall>p. pixel mid p = (if fst p = x \<and> snd p \<in> set ys then the (cm (pixel old p)) else pixel new p)"
    by blast
  from Cons.prems have "\<forall>x \<in> set xs. \<forall>y \<in> set ys. cm (pixel old (x, y)) \<noteq> None" by simp
  from Cons.IH [OF this, of mid] obtain out where
    out: "swap_pixels cm old xs ys mid = Inr out" "width out = width mid" "height out = height mid"
      "\<forall>p. pixel out p = (if fst p \<in> set xs \<and> snd p \<in> set ys then the (cm (pixel old p)) else pixel mid p)"
    by blast
  have "pixel out p = (if fst p \<in> set (x # xs) \<and> snd p \<in> set ys then the (cm (pixel old p)) else pixel new p)" for p
    using out(4) [rule_format, of p] mid(4) [rule_format, of p] by auto
  then show ?case using out mid by simp
qed

lemma swap_pixels_Inl:
  "\<exists>x \<in> set xs. \<exists>y \<in> set ys. cm (pixel old (x, y)) = None \<Longrightarrow>
   \<exists>x \<in> set xs. \<exists>y \<in> set ys. swap_pixels cm old xs ys new = Inl (KeyError (pixel old (x, y))) \<and> cm (pixel old (x, y)) = None"
proof (induction xs arbitrary: new)
  case Nil
  then show ?case by simp
next
  case (Cons x xs)
  show ?case
  proof (cases "\<exists>y \<in> set ys. cm (pixel old (x, y)) = None")
    case True
    from swap_column_Inl [OF this, of new] show ?thesis by auto
  next
    case False
    then have "\<forall>y \<in> set ys. cm (pixel old (x, y)) \<noteq> None" by simp
    from swap_column_Inr [OF this, of new] obtain mid where
      mid: "swap_column cm old x ys new = Inr mid" by blast
    from Cons.prems False have "\<exists>x \<in> set xs. \<exists>y \<in> set ys. cm (pixel old (x, y)) = None" by auto
    from Cons.IH [OF this, of mid] show ?thesis using mid by auto
  qed
qed

lemma transform_image_Inr:
  assumes "\<forall>x y. x < width original \<and> y < height original \<longrightarrow> cm (pixel original (x, y)) \<noteq> None"
  shows "\<exists>out. transform_image original cm = Inr out \<and> width out = width original \<and> height out = height original \<and>
     (\<forall>x y. x < width original \<and> y < height original \<longrightarrow> cm (pixel original (x, y)) = Some (pixel out (x, y)))"
proof -
  let ?new = "Image_new (width original, height original) (255, 255, 255, 0)"
  have "\<forall>x \<in> set [0..<width original]. \<forall>y \<in> set [0..<height original]. cm (pixel original (x, y)) \<noteq> None"
    using assms by simp
  from swap_pixels_Inr [OF this, of ?new] obtain out where
    out: "swap_pixels cm original [0..<width original] [0..<height original] ?new = Inr out"
      "width out = width ?new" "height out = height ?new"
      "\<forall>p. pixel out p = (if fst p \<in> set [0..<width original] \<and> snd p \<in> set [0..<height original]
          then the (cm (pixel original p)) else pixel ?new p)"
    by blast
  have "cm (pixel original (x, y)) = Some (pixel out (x, y))" if "x < width original" "y < height original" for x y
    using out(4) that assms by auto
  then show ?thesis using out(1-3) by (simp add: transform_image_def Image_new_def)
qed

lemma transform_image_Inl:
  assumes "\<exists>x y. x < width original \<and> y < height original \<and> cm (pixel original (x, y)) = None"
  shows "\<exists>x y. x < width original \<and> y < height original \<and> cm (pixel original (x, y)) = None \<and>
     transform_image original cm = Inl (KeyError (pixel original (x, y)))"
proof -
  let ?new = "Image_new (width original, height original) (255, 255, 255, 0)"
  from assms obtain x y where "x < width original" "y < height original" "cm (pixel original (x, y)) = None"
    by blast
  then have "x \<in> set [0..<width original]" "y \<in> set [0..<height original]" by simp_all
  with \<open>cm (pixel original (x, y)) = None\<close>
  have "\<exists>x \<in> set [0..<width original]. \<exists>y \<in> set [0..<height original]. cm (pixel original (x, y)) = None"
    by blast
  from swap_pixels_Inl [OF this, of ?new] obtain x' y' where
    xy: "x' \<in> set [0..<width original]" "y' \<in> set [0..<height original]"
      "swap_pixels cm original [0..<width original] [0..<height original] ?new
         = Inl (KeyError (pixel original (x', y')))"
      "cm (pixel original (x', y')) = None"
    by blast
  have "transform_image original cm = Inl (KeyError (pixel original (x', y')))"
    using xy(3) by (simp add: transform_image_def Image_new_def)
  moreover have "x' < width original" "y' < height original" using xy(1,2) by simp_all
  ultimately show ?thesis using xy(4) by blast
qed

lemma transform_image_Inr_result:
  assumes "transform_image source mapping = Inr out"
  shows "width out = width source \<and> height out = height source \<and>
         (\<forall>x y. x < width source \<and> y < height source \<longrightarrow>
            mapping (pixel source (x, y)) = Some (pixel out (x, y)))"
proof (cases "\<exists>x y. x < width source \<and> y < height source \<and> mapping (pixel source (x, y)) = None")
  case True
  from transform_image_Inl [OF this] assms show ?thesis by auto
next
  case False
  then have "\<forall>x y. x < width source \<and> y < height source \<longrightarrow> mapping (pixel source (x, y)) \<noteq> None"
    by simp
  from transform_image_Inr [OF this] assms show ?thesis by auto
qed

lemma getdata_cong:
  assumes "width a = width b" "height a = height b"
    and "\<forall>x y. x < width b \<and> y < height b \<longrightarrow> pixel a (x, y) = pixel b (x, y)"
  shows "getdata a = getdata b"
proof -
  have "map (\<lambda>x. pixel a (x, y)) [0..<width b] = map (\<lambda>x. pixel b (x, y)) [0..<width b]"
    if "y < height b" for y
    using assms(3) that by simp
  then show ?thesis
    unfolding getdata_def assms(1,2) by (intro arg_cong [where f = concat] map_cong) simp_all
qed

lemma example_transform:
  "transform_image example_image (get_color_map [red, green] [blue]) = Inr example_output"
  by (simp add: transform_image_def example_image_def example_output_def Image_new_def
      get_color_map_def color_defs upt_0_2)

lemma example_transform_fail:
  "transform_image example_image (get_color_map [red] [blue]) = Inl (KeyError green)"
  by (simp add: transform_image_def example_image_def Image_new_def putpixel_def
      get_color_map_def color_defs upt_0_2)


text \<open>
  Claim C4. The transform step is \<open>transform_image\<close>. If some pixel of the source has a
  colour without entry in the dictionary, the call raises KeyError for such a pixel's
  colour and returns no image, neither a partial one nor one with the original pixel
  kept. If every pixel's colour has an entry, the call returns the whole output image:
  it has the size of the source and each pixel is the entry of the source pixel.
\<close>

theorem transform_image_total_or_fail:
  "((\<exists>x y. x < width source \<and> y < height source \<and> mapping (pixel source (x, y)) = None) \<longrightarrow>
      (\<exists>x y. x < width source \<and> y < height source \<and> mapping (pixel source (x, y)) = None \<and>
         transform_image source mapping = Inl (KeyError (pixel source (x, y))))) \<and>
   ((\<forall>x y. x < width source \<and> y < height source \<longrightarrow> mapping (pixel source (x, y)) \<noteq> None) \<longrightarrow>
      (\<exists>out. transform_image source mapping = Inr out \<and>
         width out = width source \<and> height out = height source \<and>
         (\<forall>x y. x < width source \<and> y < height source \<longrightarrow>
            mapping (pixel source (x, y)) = Some (pixel out (x, y)))))"
proof (intro conjI impI)
  assume "\<exists>x y. x < width source \<and> y < height source \<and> mapping (pixel source (x, y)) = None"
  then show "\<exists>x y. x < width source \<and> y < height source \<and> mapping (pixel source (x, y)) = None \<and>
         transform_image source mapping = Inl (KeyError (pixel source (x, y)))"
    by (rule transform_image_Inl)
next
  assume "\<forall>x y. x < width source \<and> y < height source \<longrightarrow> mapping (pixel source (x, y)) \<noteq> None"
  then show "\<exists>out. transform_image source mapping = Inr out \<and>
         width out = width source \<and> height out = height source \<and>
         (\<forall>x y. x < width source \<and> y < height source \<longrightarrow>
            mapping (pixel source (x, y)) = Some (pixel out (x, y)))"
    by (rule transform_image_Inr)
qed

theorem transform_image_total_or_fail_witness:
  "(\<exists>x y. x < width example_image \<and> y < height example_image \<and>
      get_color_map [red] [blue] (pixel example_image (x, y)) = None \<and>
      transform_image example_image (get_color_map [red] [blue])
        = Inl (KeyError (pixel example_image (x, y)))) \<and>
   transform_image example_image (get_color_map [red] [blue]) = Inl (KeyError green) \<and>
   (\<exists>out. transform_image example_image (get_color_map [red, green] [blue]) = Inr out \<and>
      width out = width example_image \<and> height out = height example_image \<and>
      (\<forall>x y. x < width example_image \<and> y < height example_image \<longrightarrow>
         get_color_map [red, green] [blue] (pixel example_image (x, y)) = Some (pixel out (x, y)))) \<and>
   transform_image example_image (get_color_map [red, green] [blue]) = Inr example_output"
proof -
  have "get_color_map [red] [blue] (pixel example_image (1, 0)) = None"
    by (simp add: get_color_map_def example_image_def color_defs)
  then have missing: "\<exists>x y. x < width example_image \<and> y < height example_image \<and>
      get_color_map [red] [blue] (pixel example_image (x, y)) = None"
    by (intro exI [of _ 1] exI [of _ 0]) (simp add: example_image_def)
  have "get_color_map [red, green] [blue] (pixel example_image (x, y)) \<noteq> None" for x y
    by (simp add: get_color_map_def example_image_def color_defs)
  then have total: "\<forall>x y. x < width example_image \<and> y < height example_image \<longrightarrow>
      get_color_map [red, green] [blue] (pixel example_image (x, y)) \<noteq> None"
    by simp
  note fail = transform_image_total_or_fail
    [of example_image "get_color_map [red] [blue]", THEN conjunct1, THEN mp, OF missing]
  note succeed = transform_image_total_or_fail
    [of example_image "get_color_map [red, green] [blue]", THEN conjunct2, THEN mp, OF total]
  show ?thesis
    by (intro conjI fail succeed example_transform example_transform_fail)
qed

text \<open>
  Claim C7. Whenever the transform step succeeds, the output image has the width and
  the height of the source, and its pixel at every coordinate of the image is the
  dictionary's entry for the source pixel at that coordinate.
\<close>

theorem transform_image_dimensions:
  assumes "transform_image source mapping = Inr out"
  shows "width out = width source \<and> height out = height source \<and>
         (\<forall>x y. x < width source \<and> y < height source \<longrightarrow>
            mapping (pixel source (x, y)) = Some (pixel out (x, y)))"
  using assms by (rule transform_image_Inr_result)

theorem transform_image_dimensions_witness:
  "transform_image example_image (get_color_map [red, green] [blue]) = Inr example_output \<and>
   width example_output = width example_image \<and> height example_output = height example_image \<and>
   get_color_map [red, green] [blue] (pixel example_image (0, 0)) = Some (pixel example_output (0, 0)) \<and>
   get_color_map [red, green] [blue] (pixel example_image (1, 0)) = Some (pixel example_output (1, 0)) \<and>
   pixel example_output (0, 0) = blue \<and> pixel example_output (1, 0) = green"
proof -
  note t = transform_image_dimensions [OF example_transform]
  note px = t [THEN conjunct2, THEN conjunct2, THEN spec, THEN spec, THEN mp]
  have in0: "0 < width example_image \<and> 0 < height example_image"
    and in1: "1 < width example_image \<and> 0 < height example_image"
    by (simp_all add: example_image_def)
  have a: "pixel example_output (0, 0) = blue" and b: "pixel example_output (1, 0) = green"
    by (simp_all add: example_output_def putpixel_def)
  show ?thesis
    by (intro conjI example_transform t [THEN conjunct1] t [THEN conjunct2, THEN conjunct1]
        px [OF in0] px [OF in1] a b)
qed



section \<open>The pipeline of swap_colors\<close>

lemma draw_rectangle_simps:
  "width (draw_rectangle im (x0, y0, x1, y1) c) = width im"
  "height (draw_rectangle im (x0, y0, x1, y1) c) = height im"
  "pixel (draw_rectangle im (x0, y0, x1, y1) c) p =
     (if x0 \<le> fst p \<and> fst p \<le> x1 \<and> y0 \<le> snd p \<and> snd p \<le> y1 \<and> fst p < width im \<and> snd p < height im
      then c else pixel im p)"
  by (simp_all add: draw_rectangle_def split_beta)

lemma make_palette_loop_size:
  "width (make_palette_loop cw cs k im) = width im \<and> height (make_palette_loop cw cs k im) = height im"
  by (induction cs arbitrary: k im) (simp_all add: draw_rectangle_simps)

text \<open>
  With a column width of 0 every rectangle is the column \<open>x = 0\<close>: the strip keeps the
  last colour there and is untouched elsewhere.
\<close>

lemma make_palette_loop_zero_width:
  "pixel (make_palette_loop 0 cs k im) p =
     (if cs \<noteq> [] \<and> fst p = 0 \<and> snd p \<le> 200 \<and> fst p < width im \<and> snd p < height im
      then last cs else pixel im p)"
proof (induction cs arbitrary: k im)
  case Nil
  then show ?case by simp
next
  case (Cons c cs)
  show ?case
    by (simp add: Cons.IH draw_rectangle_simps)
qed

lemma make_palette_original:
  "make_palette (Some original) None =
     (if get_im_data original = [] then Inl ZeroDivisionError
      else Inr (make_palette_loop (300 div length (get_im_data original)) (get_im_data original) 0
                  (Image_new (300, 200) (0, 0, 0, 0))))"
  by (simp add: make_palette_def Let_def)

lemma many_colors_old_colors:
  assumes "300 < length (get_im_data original)"
  shows "\<exists>old_pal. make_palette (Some original) None = Inr old_pal \<and>
           set (get_im_data old_pal) \<subseteq> {last (get_im_data original), (0, 0, 0, 0)}"
proof -
  let ?cs = "get_im_data original"
  let ?pal = "make_palette_loop 0 ?cs 0 (Image_new (300, 200) (0, 0, 0, 0))"
  have zero: "300 div length ?cs = 0" using assms by simp
  have ne: "?cs \<noteq> []" using assms by auto
  have mk: "make_palette (Some original) None = Inr ?pal"
    using ne zero by (simp add: make_palette_original)
  have "c \<in> {last ?cs, (0, 0, 0, 0)}" if "c \<in> set (getdata ?pal)" for c
  proof -
    from that obtain x y where "pixel ?pal (x, y) = c" unfolding in_set_getdata by blast
    then show ?thesis
      unfolding make_palette_loop_zero_width by (simp add: Image_new_def split: if_splits)
  qed
  then have "set (get_im_data ?pal) \<subseteq> {last ?cs, (0, 0, 0, 0)}"
    unfolding get_im_data_set by blast
  with mk show ?thesis by blast
qed

lemma swap_colors_no_colors:
  assumes "width original = 0 \<or> height original = 0"
  shows "swap_colors original palette = Inl ZeroDivisionError"
proof -
  have "width original * height original = 0" using assms by auto
  then have "length (getdata original) = 0" by (simp add: length_getdata)
  then have "get_im_data original = []" by (simp add: get_im_data_def)
  then show ?thesis by (simp add: swap_colors_def make_palette_original)
qed

lemma many_colors_pixel_inj:
  assumes "x < 301" "y < 301"
    and "pixel many_colors_image (x, 0) = pixel many_colors_image (y, 0)"
  shows "x = y"
proof -
  from assms(3) have a: "(word_of_nat (x mod 256) :: 8 word) = word_of_nat (y mod 256)"
    and b: "(word_of_nat (x div 256) :: 8 word) = word_of_nat (y div 256)"
    by (simp_all add: many_colors_image_def)
  from a have "x mod 256 = y mod 256"
    by (simp add: word_of_nat_eq_iff take_bit_eq_mod)
  moreover from b assms(1,2) have "x div 256 = y div 256"
    by (simp add: word_of_nat_eq_iff take_bit_eq_mod)
  ultimately show ?thesis by (metis div_mult_mod_eq)
qed

lemma many_colors_getdata:
  "getdata many_colors_image = map (\<lambda>x. pixel many_colors_image (x, 0)) [0..<301]"
  by (simp add: getdata_def many_colors_image_def)

lemma many_colors_length: "length (get_im_data many_colors_image) = 301"
proof -
  have "inj_on (\<lambda>x. pixel many_colors_image (x, 0)) (set [0..<301])"
    by (rule inj_onI) (simp add: many_colors_pixel_inj)
  then have "distinct (getdata many_colors_image)"
    unfolding many_colors_getdata by (simp add: distinct_map)
  then show ?thesis
    by (simp add: get_im_data_first_occurrences first_occurrences_distinct many_colors_getdata)
qed

lemma many_colors_last: "last (get_im_data many_colors_image) = (44, 1, 0, 255)"
proof -
  have "inj_on (\<lambda>x. pixel many_colors_image (x, 0)) (set [0..<301])"
    by (rule inj_onI) (simp add: many_colors_pixel_inj)
  then have "distinct (getdata many_colors_image)"
    unfolding many_colors_getdata by (simp add: distinct_map)
  then have "get_im_data many_colors_image = getdata many_colors_image"
    by (simp add: get_im_data_first_occurrences first_occurrences_distinct)
  then have "last (get_im_data many_colors_image) = pixel many_colors_image (300, 0)"
    by (simp add: many_colors_getdata last_map)
  then show ?thesis by (simp add: many_colors_image_def)
qed

lemma many_colors_KeyError:
  "swap_colors many_colors_image palette = Inl (KeyError (0, 0, 0, 255))"
proof -
  have "300 < length (get_im_data many_colors_image)" by (simp add: many_colors_length)
  from many_colors_old_colors [OF this] obtain old_pal where
    mk: "make_palette (Some many_colors_image) None = Inr old_pal" and
    sub: "set (get_im_data old_pal) \<subseteq> {(44, 1, 0, 255), (0, 0, 0, 0)}"
    unfolding many_colors_last by blast
  let ?cm = "get_color_map (get_im_data old_pal) (get_im_data palette)"
  have "(0, 0, 0, 255) \<notin> dom ?cm"
    unfolding get_color_map_dom using sub by auto
  then have none: "?cm (0, 0, 0, 255) = None" by blast
  have cols: "[0..<301] = 0 # [1..<301]" by (simp add: upt_conv_Cons)
  have "transform_image many_colors_image ?cm = Inl (KeyError (0, 0, 0, 255))"
    by (simp add: transform_image_def Image_new_def many_colors_image_def cols none)
  then show ?thesis using mk by (simp add: swap_colors_def)
qed

text \<open>
  Claim C5 does not hold of the code. \<open>swap_colors\<close> on the 0 by 0 image raises
  ZeroDivisionError: \<open>make_palette\<close> divides the strip width by the number of colours,
  which is 0. The steps taken alone do what the claim says: the catalogue is empty, the
  dictionary is empty, and the transform step returns a 0 by 0 image.
\<close>

theorem swap_colors_empty_image:
  "swap_colors (Image_new (0, 0) c) palette = Inl ZeroDivisionError \<and>
   get_im_data (Image_new (0, 0) c) = [] \<and>
   get_color_map [] (get_im_data palette) = Map.empty \<and>
   transform_image (Image_new (0, 0) c) Map.empty = Inr (Image_new (0, 0) (255, 255, 255, 0))"
proof -
  have "swap_colors (Image_new (0, 0) c) palette = Inl ZeroDivisionError"
    by (rule swap_colors_no_colors) (simp add: Image_new_def)
  then show ?thesis
    by (simp add: get_im_data_def getdata_def Image_new_def get_color_map_def transform_image_def)
qed

text \<open>
  Claim C9 does not hold of the code. For an image with more than 300 distinct colours
  the column width \<open>300 div num_cols\<close> is 0, the strip keeps only the last colour, and
  \<open>swap_colors\<close> raises KeyError for the colour of a pixel of the image, whatever the
  destination palette.
\<close>

theorem swap_colors_many_colors_KeyError:
  assumes "300 < length (get_im_data original)"
  shows "\<exists>c. swap_colors original palette = Inl (KeyError c) \<and> c \<in> set (getdata original)"
proof -
  let ?cs = "get_im_data original"
  from many_colors_old_colors [OF assms] obtain old_pal where
    mk: "make_palette (Some original) None = Inr old_pal" and
    sub: "set (get_im_data old_pal) \<subseteq> {last ?cs, (0, 0, 0, 0)}"
    by blast
  let ?cm = "get_color_map (get_im_data old_pal) (get_im_data palette)"
  have "card (set ?cs) = length ?cs" using get_im_data_distinct by (rule distinct_card)
  then have "card {last ?cs, (0, 0, 0, 0)} < card (set ?cs)"
    using assms by (simp add: card_insert_if)
  then have "\<not> set ?cs \<subseteq> {last ?cs, (0, 0, 0, 0)}"
    by (meson card_mono finite.emptyI finite.insertI not_less)
  then obtain c where c: "c \<in> set ?cs" "c \<notin> set (get_im_data old_pal)" using sub by blast
  then have "?cm c = None" using get_color_map_dom [of "get_im_data old_pal" "get_im_data palette"] by blast
  moreover from c(1) obtain x y where "x < width original" "y < height original" "pixel original (x, y) = c"
    unfolding get_im_data_set in_set_getdata by blast
  ultimately have "\<exists>x y. x < width original \<and> y < height original \<and> ?cm (pixel original (x, y)) = None"
    by blast
  from transform_image_Inl [OF this] obtain x y where
    xy: "x < width original" "y < height original"
      "transform_image original ?cm = Inl (KeyError (pixel original (x, y)))"
    by blast
  have "swap_colors original palette = Inl (KeyError (pixel original (x, y)))"
    using mk xy(3) by (simp add: swap_colors_def)
  moreover have "pixel original (x, y) \<in> set (getdata original)"
    unfolding in_set_getdata using xy(1,2) by blast
  ultimately show ?thesis by blast
qed

theorem swap_colors_many_colors_KeyError_witness:
  "300 < length (get_im_data many_colors_image) \<and>
   (\<exists>c. swap_colors many_colors_image blue_palette = Inl (KeyError c) \<and>
      c \<in> set (getdata many_colors_image)) \<and>
   swap_colors many_colors_image blue_palette = Inl (KeyError (0, 0, 0, 255))"
proof -
  have a: "300 < length (get_im_data many_colors_image)"
    by (simp add: many_colors_length)
  show ?thesis
    by (intro conjI a swap_colors_many_colors_KeyError [OF a] many_colors_KeyError)
qed

text \<open>
  Whenever \<open>swap_colors\<close> returns an image, it has the size of the original, and every
  pixel is the entry of the original pixel in the dictionary built from the strip.
\<close>

lemma swap_colors_Inr_result:
  assumes "swap_colors original palette = Inr out"
  shows "width out = width original \<and> height out = height original \<and>
         (\<exists>old_pal. make_palette (Some original) None = Inr old_pal \<and>
            (\<forall>x y. x < width original \<and> y < height original \<longrightarrow>
               get_color_map (get_im_data old_pal) (get_im_data palette) (pixel original (x, y))
                 = Some (pixel out (x, y))))"
proof (cases "make_palette (Some original) None")
  case (Inl e)
  with assms show ?thesis by (simp add: swap_colors_def)
next
  case (Inr old_pal)
  with assms have
    "transform_image original (get_color_map (get_im_data old_pal) (get_im_data palette)) = Inr out"
    by (simp add: swap_colors_def)
  from transform_image_Inr_result [OF this] Inr show ?thesis by simp
qed

subsection \<open>Images with 1 to 300 distinct colours\<close>

text \<open>A rectangle of the strip leaves the columns to the left of its start untouched.\<close>

lemma make_palette_loop_left:
  "x < cw * k \<Longrightarrow> pixel (make_palette_loop cw cs k im) (x, y) = pixel im (x, y)"
proof (induction cs arbitrary: k im)
  case Nil
  then show ?case by simp
next
  case (Cons c cs)
  have "x < cw * (k + 1)" using Cons.prems by simp
  from Cons.IH [OF this] Cons.prems show ?case
    by (simp add: draw_rectangle_simps)
qed

text \<open>The strip row: where the colour of column x comes from.\<close>

lemma make_palette_loop_row:
  assumes "0 < cw" and "cs \<noteq> []" and "cw * k \<le> x" and "x \<le> cw * (k + length cs)"
    and "x < width im" and "0 < height im"
  shows "pixel (make_palette_loop cw cs k im) (x, 0) = cs ! min ((x - cw * k) div cw) (length cs - 1)"
  using assms(2-6)
proof (induction cs arbitrary: k im)
  case Nil
  then show ?case by simp
next
  case (Cons c cs)
  let ?im = "draw_rectangle im (cw * k, 0, cw * (k + 1), 200) c"
  have here: "pixel ?im (x, 0) = c" if "x \<le> cw * (k + 1)"
    using that Cons.prems by (simp add: draw_rectangle_simps)
  show ?case
  proof (cases "x < cw * (k + 1)")
    case True
    then have "(x - cw * k) div cw = 0" using assms(1) by (simp add: less_diff_conv2 Cons.prems add.commute)
    moreover from make_palette_loop_left [OF True, of cs ?im 0] here True
    have "pixel (make_palette_loop cw (c # cs) k im) (x, 0) = c" by simp
    ultimately show ?thesis by simp
  next
    case False
    then have ge: "cw * (k + 1) \<le> x" by simp
    show ?thesis
    proof (cases "cs = []")
      case True
      with Cons.prems ge have "x = cw * (k + 1)" by simp
      then show ?thesis using True here by simp
    next
      case ne: False
      have "pixel (make_palette_loop cw cs (k + 1) ?im) (x, 0)
              = cs ! min ((x - cw * (k + 1)) div cw) (length cs - 1)"
        using ne ge Cons.prems by (intro Cons.IH) (simp_all add: draw_rectangle_simps)
      moreover have "(x - cw * k) div cw = Suc ((x - cw * (k + 1)) div cw)"
      proof -
        have "cw * (k + 1) = cw * k + cw" by simp
        with ge have "cw \<le> x - cw * k" by linarith
        with assms(1) have "(x - cw * k) div cw = Suc ((x - cw * k - cw) div cw)"
          by (simp add: le_div_geq)
        moreover have "x - cw * k - cw = x - cw * (k + 1)" by simp
        ultimately show ?thesis by (simp only:)
      qed
      moreover have "min (Suc ((x - cw * (k + 1)) div cw)) (length (c # cs) - 1)
                       = Suc (min ((x - cw * (k + 1)) div cw) (length cs - 1))"
        using ne by (cases cs) simp_all
      ultimately show ?thesis by (simp only: make_palette_loop.simps nth_Cons_Suc)
    qed
  qed
qed

text \<open>Scanning a row that walks through a distinct list step by step gives the list.\<close>

lemma get_im_data_loop_staircase:
  assumes "distinct cs" and "idx 0 = 0" and "\<forall>x. idx (Suc x) = idx x \<or> idx (Suc x) = Suc (idx x)"
    and "idx m < length cs"
  shows "get_im_data_loop [] (map (\<lambda>x. cs ! idx x) [0..<Suc m]) = take (Suc (idx m)) cs"
  using assms(4)
proof (induction m)
  case 0
  then show ?case using assms(2) by (simp add: take_Suc_conv_app_nth)
next
  case (Suc m)
  from assms(3) have step: "idx (Suc m) = idx m \<or> idx (Suc m) = Suc (idx m)" by blast
  then have "idx m < length cs" using Suc.prems by auto
  from Suc.IH [OF this]
  have IH: "get_im_data_loop [] (map (\<lambda>x. cs ! idx x) [0..<Suc m]) = take (Suc (idx m)) cs" .
  have "get_im_data_loop [] (map (\<lambda>x. cs ! idx x) [0..<Suc (Suc m)])
          = get_im_data_loop (take (Suc (idx m)) cs) [cs ! idx (Suc m)]"
    using get_im_data_loop_append [of "[]" "map (\<lambda>x. cs ! idx x) [0..<Suc m]" "[cs ! idx (Suc m)]"] IH
    by simp
  also have "\<dots> = take (Suc (idx (Suc m))) cs"
  proof (cases "idx (Suc m) = idx m")
    case True
    then have "cs ! idx (Suc m) \<in> set (take (Suc (idx m)) cs)"
      using \<open>idx m < length cs\<close> by (auto simp: in_set_conv_nth intro!: exI [of _ "idx m"])
    then show ?thesis using True by simp
  next
    case False
    with step have eq: "idx (Suc m) = Suc (idx m)" by simp
    have "cs ! Suc (idx m) \<notin> set (take (Suc (idx m)) cs)"
    proof
      assume "cs ! Suc (idx m) \<in> set (take (Suc (idx m)) cs)"
      then obtain i where "i < Suc (idx m)" "cs ! i = cs ! Suc (idx m)"
        by (auto simp: in_set_conv_nth)
      then show False using assms(1) Suc.prems eq by (simp add: nth_eq_iff_index_eq)
    qed
    then show ?thesis using eq Suc.prems by (simp add: take_Suc_conv_app_nth)
  qed
  finally show ?case .
qed

lemma strip_index_step:
  assumes "0 < (cw::nat)"
  shows "min (Suc x div cw) n = min (x div cw) n \<or> min (Suc x div cw) n = Suc (min (x div cw) n)"
proof -
  have "Suc x div cw = x div cw \<or> Suc x div cw = Suc (x div cw)"
    by (simp add: div_Suc)
  then show ?thesis by (auto simp: min_def)
qed

lemma mult_pred_add: "0 < n \<Longrightarrow> (cw::nat) * (n - 1) + cw = cw * n"
  by (cases n) simp_all

lemma few_colors_strip_catalog:
  assumes "get_im_data original \<noteq> []" and "length (get_im_data original) \<le> 300"
  shows "\<exists>old_pal extra. make_palette (Some original) None = Inr old_pal \<and>
           get_im_data old_pal = get_im_data original @ extra"
proof -
  let ?cs = "get_im_data original"
  let ?n = "length ?cs"
  let ?cw = "300 div ?n"
  let ?pal = "make_palette_loop ?cw ?cs 0 (Image_new (300, 200) (0, 0, 0, 0))"
  define m where "m = min (?cw * ?n) 299"
  define idx where "idx = (\<lambda>x. min (x div ?cw) (?n - 1))"
  have n: "0 < ?n" using assms(1) by simp
  have cw: "0 < ?cw" using assms(2) n by (simp add: div_greater_zero_iff)
  have cwn: "?cw * ?n \<le> 300" by (simp add: mult.commute)
  have mk: "make_palette (Some original) None = Inr ?pal"
    using assms(1) by (simp add: make_palette_original)
  have size: "width ?pal = 300" "height ?pal = 200"
    by (simp_all add: make_palette_loop_size Image_new_def)
  have m_lt: "m < 300" and m_le: "m \<le> ?cw * ?n" by (simp_all add: m_def)
  have px: "pixel ?pal (x, 0) = ?cs ! idx x" if "x \<le> m" for x
  proof -
    have "pixel ?pal (x, 0) = ?cs ! min ((x - ?cw * 0) div ?cw) (?n - 1)"
      using cw assms(1) that m_lt m_le
      by (intro make_palette_loop_row) (simp_all add: Image_new_def)
    then show ?thesis by (simp add: idx_def)
  qed
  have idx0: "idx 0 = 0" by (simp add: idx_def)
  have idx_step: "\<forall>x. idx (Suc x) = idx x \<or> idx (Suc x) = Suc (idx x)"
    unfolding idx_def using strip_index_step [OF cw] by blast
  have idx_m: "idx m = ?n - 1"
  proof -
    have "?cw * (?n - 1) + ?cw = ?cw * ?n" using n by (rule mult_pred_add)
    with cwn cw have "?cw * (?n - 1) \<le> 299" by linarith
    moreover have "?cw * (?n - 1) \<le> ?cw * ?n" by simp
    ultimately have "?cw * (?n - 1) \<le> m" by (simp add: m_def)
    then have "(?cw * (?n - 1)) div ?cw \<le> m div ?cw" by (rule div_le_mono)
    then have "?n - 1 \<le> m div ?cw" using cw by simp
    then show ?thesis by (simp add: idx_def)
  qed
  have idx_lt: "idx m < ?n" using idx_m n by simp
  have first: "get_im_data_loop [] (map (\<lambda>x. ?cs ! idx x) [0..<Suc m]) = ?cs"
    using get_im_data_loop_staircase [OF get_im_data_distinct idx0 idx_step idx_lt] idx_m n
    by simp
  have rows: "[0..<200] = 0 # [1..<200]" by (simp add: upt_conv_Cons)
  have "[0..<Suc m + (300 - Suc m)] = [0..<Suc m] @ [Suc m..<Suc m + (300 - Suc m)]"
    by (rule upt_add_eq_append) simp
  then have cols: "[0..<300] = [0..<Suc m] @ [Suc m..<300]"
    using m_lt by simp
  have "map (\<lambda>x. pixel ?pal (x, 0)) [0..<Suc m] = map (\<lambda>x. ?cs ! idx x) [0..<Suc m]"
    using px by simp
  then have "\<exists>rest. getdata ?pal = map (\<lambda>x. ?cs ! idx x) [0..<Suc m] @ rest"
    unfolding getdata_def size rows cols by simp
  then obtain rest where "getdata ?pal = map (\<lambda>x. ?cs ! idx x) [0..<Suc m] @ rest" by blast
  then have "get_im_data ?pal = get_im_data_loop [] (map (\<lambda>x. ?cs ! idx x) [0..<Suc m] @ rest)"
    by (simp only: get_im_data_def [of ?pal])
  also have "\<dots> = get_im_data_loop (get_im_data_loop [] (map (\<lambda>x. ?cs ! idx x) [0..<Suc m])) rest"
    by (rule get_im_data_loop_append)
  also have "\<dots> = get_im_data_loop ?cs rest"
    by (simp only: first)
  finally have "get_im_data ?pal = get_im_data_loop ?cs rest" .
  then have "\<exists>extra. get_im_data ?pal = ?cs @ extra"
    using get_im_data_loop_prefix [of ?cs rest] by simp
  with mk show ?thesis by blast
qed

lemma get_color_map_prefix:
  assumes "distinct (cs @ extra)" and "c \<in> set cs"
  shows "get_color_map (cs @ extra) new c = get_color_map cs new c"
proof -
  from assms(2) obtain j where j: "j < length cs" "cs ! j = c" by (auto simp: in_set_conv_nth)
  have a: "\<forall>k. j < k \<and> k < length cs \<longrightarrow> cs ! k \<noteq> cs ! j"
    using assms(1) j(1) by (auto simp: nth_eq_iff_index_eq)
  have j': "j < length (cs @ extra)" using j(1) by simp
  have b: "\<forall>k. j < k \<and> k < length (cs @ extra) \<longrightarrow> (cs @ extra) ! k \<noteq> (cs @ extra) ! j"
    using assms(1) j' by (auto simp: nth_eq_iff_index_eq simp del: distinct_append)
  from get_color_map_last_occurrence [OF j(1) a, of new]
    get_color_map_last_occurrence [OF j' b, of new] j
  show ?thesis by (simp add: nth_append)
qed

text \<open>
  For an image with at least 1 and at most 300 distinct colours the strip holds every
  colour of the catalogue, in its order, before anything else. So \<open>swap_colors\<close> returns
  an image of the size of the original, whose every pixel is the entry of the original
  pixel in the dictionary built from the catalogue of the original and the catalogue of
  the palette.
\<close>

lemma swap_colors_few_colors:
  assumes "get_im_data original \<noteq> []" and "length (get_im_data original) \<le> 300"
  shows "\<exists>out. swap_colors original palette = Inr out \<and>
           width out = width original \<and> height out = height original \<and>
           (\<forall>x y. x < width original \<and> y < height original \<longrightarrow>
              get_color_map (get_im_data original) (get_im_data palette) (pixel original (x, y))
                = Some (pixel out (x, y)))"
proof -
  let ?cs = "get_im_data original"
  from few_colors_strip_catalog [OF assms] obtain old_pal extra where
    mk: "make_palette (Some original) None = Inr old_pal" and
    cat: "get_im_data old_pal = ?cs @ extra"
    by blast
  let ?cm' = "get_color_map (get_im_data old_pal) (get_im_data palette)"
  let ?cm = "get_color_map ?cs (get_im_data palette)"
  have dist: "distinct (?cs @ extra)" using get_im_data_distinct [of old_pal] cat by simp
  have agree: "?cm' (pixel original (x, y)) = ?cm (pixel original (x, y))"
    if "x < width original" "y < height original" for x y
  proof -
    have "pixel original (x, y) \<in> set ?cs"
      unfolding get_im_data_set in_set_getdata using that by blast
    then show ?thesis unfolding cat by (rule get_color_map_prefix [OF dist])
  qed
  have "?cm (pixel original (x, y)) \<noteq> None" if "x < width original" "y < height original" for x y
  proof -
    have "pixel original (x, y) \<in> set ?cs"
      unfolding get_im_data_set in_set_getdata using that by blast
    then have "pixel original (x, y) \<in> dom ?cm" unfolding get_color_map_dom .
    then show ?thesis by blast
  qed
  then have "\<forall>x y. x < width original \<and> y < height original \<longrightarrow> ?cm' (pixel original (x, y)) \<noteq> None"
    using agree by simp
  from transform_image_Inr [OF this] obtain out where
    out: "transform_image original ?cm' = Inr out" "width out = width original" "height out = height original"
      "\<forall>x y. x < width original \<and> y < height original \<longrightarrow> ?cm' (pixel original (x, y)) = Some (pixel out (x, y))"
    by blast
  have "swap_colors original palette = Inr out" using mk out(1) by (simp add: swap_colors_def)
  moreover have "\<forall>x y. x < width original \<and> y < height original \<longrightarrow>
      ?cm (pixel original (x, y)) = Some (pixel out (x, y))"
    using out(4) agree by simp
  ultimately show ?thesis using out(2,3) by blast
qed

text \<open>With the image itself as palette, such an image is reproduced pixel for pixel.\<close>

lemma swap_colors_round_trip:
  assumes "get_im_data original \<noteq> []" and "length (get_im_data original) \<le> 300"
  shows "\<exists>out. swap_colors original original = Inr out \<and>
           width out = width original \<and> height out = height original \<and>
           getdata out = getdata original"
proof -
  let ?cs = "get_im_data original"
  from swap_colors_few_colors [OF assms, of original] obtain out where
    out: "swap_colors original original = Inr out" "width out = width original" "height out = height original"
      "\<forall>x y. x < width original \<and> y < height original \<longrightarrow>
         get_color_map ?cs ?cs (pixel original (x, y)) = Some (pixel out (x, y))"
    by blast
  have "pixel out (x, y) = pixel original (x, y)" if "x < width original" "y < height original" for x y
  proof -
    have "pixel original (x, y) \<in> set ?cs"
      unfolding get_im_data_set in_set_getdata using that by blast
    then have "get_color_map ?cs ?cs (pixel original (x, y)) = Some (pixel original (x, y))"
      using get_im_data_distinct by (intro get_color_map_self)
    with out(4) that show ?thesis by simp
  qed
  then have "\<forall>x y. x < width original \<and> y < height original \<longrightarrow> pixel out (x, y) = pixel original (x, y)"
    by simp
  from getdata_cong [OF out(2,3) this] out(1-3) show ?thesis by blast
qed

text \<open>
  The scenario of the specification: the 2 by 1 image of a red and a green pixel, with a
  palette image whose only colour is blue, gives the pixels blue and green.
\<close>

lemma swap_colors_scenario:
  "\<exists>out. swap_colors example_image blue_palette = Inr out \<and>
     width out = 2 \<and> height out = 1 \<and> getdata out = [blue, green]"
proof -
  have cat: "get_im_data example_image = [red, green]" by (rule example_image_get_im_data)
  have pal: "get_im_data blue_palette = [blue]"
    by (simp add: get_im_data_def getdata_def blue_palette_def Image_new_def blue_def)
  have "get_im_data example_image \<noteq> []" "length (get_im_data example_image) \<le> 300"
    by (simp_all add: cat)
  from swap_colors_few_colors [OF this, of blue_palette] obtain out where
    out: "swap_colors example_image blue_palette = Inr out"
      "width out = width example_image" "height out = height example_image"
      "\<forall>x y. x < width example_image \<and> y < height example_image \<longrightarrow>
         get_color_map (get_im_data example_image) (get_im_data blue_palette)
           (pixel example_image (x, y)) = Some (pixel out (x, y))"
    by blast
  have size: "width out = 2" "height out = 1" using out(2,3) by (simp_all add: example_image_def)
  note px = out(4) [unfolded cat pal, THEN spec, THEN spec, THEN mp]
  have in0: "0 < width example_image \<and> 0 < height example_image"
    and in1: "1 < width example_image \<and> 0 < height example_image"
    by (simp_all add: example_image_def)
  have "get_color_map [red, green] [blue] (pixel example_image (0, 0)) = Some (pixel out (0, 0))"
    and "get_color_map [red, green] [blue] (pixel example_image (1, 0)) = Some (pixel out (1, 0))"
    by (rule px [OF in0], rule px [OF in1])
  then have "pixel out (0, 0) = blue" "pixel out (1, 0) = green"
    by (simp_all add: get_color_map_def example_image_def color_defs)
  then have "getdata out = [blue, green]"
    by (simp add: getdata_def size upt_0_2)
  with out(1) size show ?thesis by blast
qed

section \<open>Reading a palette file\<close>







end
